theory Spec2Isabelle
  imports Complex_Main
begin

section \<open>Dates and numbers of the host language\<close>

text \<open>
  An instant is a whole number of milliseconds since the epoch. A JavaScript \<open>Date\<close>
  holds such a time value, or is an Invalid Date. A JavaScript number that carries a
  duration is a rational here: the rounding of doubles is not modelled, and no
  statement below depends on it. Counters and limits are whole numbers.
\<close>

type_synonym instant = int

datatype date = Date instant | InvalidDate

datatype error =
  TypeError | SyntaxError | RangeError | Timeout | HandlerError string | CronError

text \<open>
  \<open>new Date(v)\<close> for a number \<open>v\<close>: the value is cut to a whole number towards zero, and a
  value beyond 8.64e15 milliseconds on either side gives an Invalid Date.
\<close>

definition trunc :: "rat \<Rightarrow> int" where
  "trunc v = (if v < 0 then \<lceil>v\<rceil> else \<lfloor>v\<rfloor>)"

definition new_Date :: "rat \<Rightarrow> date" where
  "new_Date v = (if \<bar>v\<bar> > 8640000000000000 then InvalidDate else Date (trunc v))"

text \<open>
  \<open>addMilliseconds(new Date(), amount)\<close> of date-fns: a new \<open>Date\<close> from the sum of the
  time value and the amount, as versions 3 and 4 of the library define it. (Version 2
  cuts the amount to a whole number before it adds, which gives the same \<open>Date\<close> for
  every whole-number amount.)
\<close>

definition addMilliseconds :: "instant \<Rightarrow> rat \<Rightarrow> date" where
  "addMilliseconds now amount = new_Date (of_int now + amount)"

text \<open>
  \<open>Date.prototype.toISOString\<close>. The year, month and day of a day number follow the
  proleptic Gregorian calendar; a year from 0 to 9999 is written with four digits, any
  other year with a sign and six digits. An Invalid Date throws a RangeError.
\<close>

fun pad :: "nat \<Rightarrow> int \<Rightarrow> string" where
  "pad 0 n = []"
| "pad (Suc k) n = pad k (n div 10) @ [char_of (48 + n mod 10)]"

definition civil_from_days :: "int \<Rightarrow> int \<times> int \<times> int" where
  "civil_from_days z0 =
     (let z = z0 + 719468;
          era = z div 146097;
          doe = z mod 146097;
          yoe = (doe - doe div 1460 + doe div 36524 - doe div 146096) div 365;
          doy = doe - (365 * yoe + yoe div 4 - yoe div 100);
          mp = (5 * doy + 2) div 153;
          d = doy - (153 * mp + 2) div 5 + 1;
          m = (if mp < 10 then mp + 3 else mp - 9);
          y = yoe + era * 400 + (if m \<le> 2 then 1 else 0)
      in (y, m, d))"

definition year_text :: "int \<Rightarrow> string" where
  "year_text y =
     (if 0 \<le> y \<and> y \<le> 9999 then pad 4 y
      else (if y < 0 then ''-'' else ''+'') @ pad 6 \<bar>y\<bar>)"

definition iso :: "instant \<Rightarrow> string" where
  "iso t =
     (case civil_from_days (t div 86400000) of
        (y, m, d) \<Rightarrow>
          (let ms = t mod 86400000
           in year_text y @ ''-'' @ pad 2 m @ ''-'' @ pad 2 d @ ''T'' @
              pad 2 (ms div 3600000) @ '':'' @ pad 2 (ms div 60000 mod 60) @ '':'' @
              pad 2 (ms div 1000 mod 60) @ ''.'' @ pad 3 (ms mod 1000) @ ''Z''))"

definition toISOString :: "date \<Rightarrow> error + string" where
  "toISOString d = (case d of InvalidDate \<Rightarrow> Inl RangeError | Date t \<Rightarrow> Inr (iso t))"

text \<open>
  The comparison \<open>a <= b\<close> of two texts in the table: byte by byte, a proper prefix
  first.
\<close>

fun text_le :: "string \<Rightarrow> string \<Rightarrow> bool" where
  "text_le [] ys = True"
| "text_le (x # xs) [] = False"
| "text_le (x # xs) (y # ys) =
     (if x = y then text_le xs ys else (of_char x :: nat) < of_char y)"

section \<open>The queue table (src/types.ts, src/database.ts)\<close>

datatype status = Pending | Processing | Completed | Failed | Scheduled

text \<open>
  \<open>message_fields\<close> is \<open>Omit<QueueMessage, "id" | "createdAt" | "updatedAt">\<close>, the argument
  of \<open>QueueDatabase.addMessage\<close>, where \<open>startAt\<close> is a \<open>Date\<close>. \<open>QueueMessage\<close> is a row as
  read back from the table: the primary key is always present, and \<open>startAt\<close> is the text
  that was stored. An absent \<open>interval\<close> or \<open>cronPattern\<close> (SQL NULL) is \<open>None\<close>.
  \<open>createdAt\<close> and \<open>updatedAt\<close> hold the \<open>CURRENT_TIMESTAMP\<close> of a write, as an instant.
\<close>

record 'd message_fields =
  queue :: string
  payload :: string
  status :: status
  startAt :: 'd
  retryCount :: int
  maxRetries :: int
  interval :: "rat option"
  respawnCount :: int
  maxRespawns :: int
  cronPattern :: "string option"

record QueueMessage = "string message_fields" +
  msg_id :: nat
  createdAt :: instant
  updatedAt :: instant

text \<open>
  The table \<open>queue_messages\<close>: its rows in rowid order, and the counter that
  \<open>AUTOINCREMENT\<close> keeps of the largest rowid ever handed out.
\<close>

record store =
  rows :: "QueueMessage list"
  last_rowid :: nat

text \<open>\<open>UPDATE queue_messages SET ... WHERE id = ?\<close>: every row with that id is rewritten.\<close>

definition update_where_id :: "nat \<Rightarrow> (QueueMessage \<Rightarrow> QueueMessage) \<Rightarrow> store \<Rightarrow> store" where
  "update_where_id i f s = s\<lparr>rows := map (\<lambda>r. if msg_id r = i then f r else r) (rows s)\<rparr>"

text \<open>\<open>SELECT * FROM queue_messages WHERE id = ?\<close> with \<open>.get\<close>: the first such row, or undefined.\<close>

definition select_by_id :: "nat \<Rightarrow> store \<Rightarrow> QueueMessage option" where
  "select_by_id i s = find (\<lambda>r. msg_id r = i) (rows s)"

text \<open>
  \<open>addMessage\<close>: \<open>message.startAt.toISOString()\<close> is evaluated before the insert runs and
  throws for an Invalid Date. The new row gets the next rowid, and \<open>createdAt\<close> and
  \<open>updatedAt\<close> default to \<open>CURRENT_TIMESTAMP\<close>, passed as \<open>ts\<close>.
\<close>

definition next_rowid :: "store \<Rightarrow> nat" where
  "next_rowid s = Suc (fold max (map msg_id (rows s)) (last_rowid s))"

definition addMessage :: "instant \<Rightarrow> date message_fields \<Rightarrow> store \<Rightarrow> error + nat \<times> store" where
  "addMessage ts message s =
     (case toISOString (startAt message) of
        Inl e \<Rightarrow> Inl e
      | Inr text \<Rightarrow>
          (let i = next_rowid s;
               row = \<lparr>queue = queue message, payload = payload message, status = status message,
                      startAt = text, retryCount = retryCount message,
                      maxRetries = maxRetries message, interval = interval message,
                      respawnCount = respawnCount message, maxRespawns = maxRespawns message,
                      cronPattern = cronPattern message,
                      msg_id = i, createdAt = ts, updatedAt = ts\<rparr>
           in Inr (i, s\<lparr>rows := rows s @ [row], last_rowid := i\<rparr>)))"

text \<open>
  \<open>WHERE status = 'pending' AND startAt <= ?\<close>, then \<open>ORDER BY startAt ASC LIMIT 1\<close>: both
  compare the stored text, the first with the text of \<open>now\<close>. SQL leaves the choice among
  rows of equal \<open>startAt\<close> open; \<open>oldest\<close> takes the one that comes first in the table, and
  the theorems below use only that its \<open>startAt\<close> is least.
\<close>

definition eligible :: "string \<Rightarrow> QueueMessage \<Rightarrow> bool" where
  "eligible now m \<longleftrightarrow> status m = Pending \<and> text_le (startAt m) now"

fun oldest :: "QueueMessage list \<Rightarrow> QueueMessage option" where
  "oldest [] = None"
| "oldest (m # ms) =
     (case oldest ms of
        None \<Rightarrow> Some m
      | Some m' \<Rightarrow> if text_le (startAt m) (startAt m') then Some m else Some m')"

text \<open>
  \<open>getNextMessage(workerId)\<close>: \<open>now\<close> is the \<open>new Date()\<close> read before the transaction,
  whose \<open>toISOString()\<close> is the text compared; \<open>ts\<close> is the \<open>CURRENT_TIMESTAMP\<close> of the
  update. The transaction is one step of the model: the row is selected and marked
  within it. The row returned is the one read by the select, before the update.
  \<open>workerId\<close> is not used by the source.
\<close>

definition getNextMessage :: "nat \<Rightarrow> instant \<Rightarrow> instant \<Rightarrow> store \<Rightarrow> QueueMessage option \<times> store" where
  "getNextMessage workerId now ts s =
     (case oldest (filter (eligible (iso now)) (rows s)) of
        None \<Rightarrow> (None, s)
      | Some message \<Rightarrow>
          (Some message,
           update_where_id (msg_id message) (\<lambda>r. r\<lparr>status := Processing, updatedAt := ts\<rparr>) s))"

definition markMessageComplete :: "instant \<Rightarrow> nat \<Rightarrow> store \<Rightarrow> store" where
  "markMessageComplete ts i s =
     update_where_id i (\<lambda>r. r\<lparr>status := Completed, updatedAt := ts\<rparr>) s"

text \<open>
  \<open>markMessageFailed\<close> reads \<open>message.retryCount\<close> of the selected row; when the select
  found no row, \<open>message\<close> is undefined and the read throws a TypeError.
\<close>

definition markMessageFailed :: "instant \<Rightarrow> nat \<Rightarrow> store \<Rightarrow> error + store" where
  "markMessageFailed ts i s =
     (case select_by_id i s of
        None \<Rightarrow> Inl TypeError
      | Some message \<Rightarrow>
          if retryCount message < maxRetries message
          then Inr (update_where_id i
                 (\<lambda>r. r\<lparr>status := Pending, retryCount := retryCount r + 1, updatedAt := ts\<rparr>) s)
          else Inr (update_where_id i (\<lambda>r. r\<lparr>status := Failed, updatedAt := ts\<rparr>) s))"

text \<open>
  \<open>rescheduleMessage\<close>: \<open>nextRunTime.toISOString()\<close> is evaluated before the update runs;
  for an Invalid Date it throws and nothing is written.
\<close>

definition rescheduleMessage :: "instant \<Rightarrow> nat \<Rightarrow> date \<Rightarrow> store \<Rightarrow> error + store" where
  "rescheduleMessage ts i nextRunTime s =
     (case toISOString nextRunTime of
        Inl e \<Rightarrow> Inl e
      | Inr text \<Rightarrow>
          Inr (update_where_id i
                 (\<lambda>r. r\<lparr>startAt := text, status := Pending, updatedAt := ts\<rparr>) s))"

text \<open>
  Callers of \<open>getNextMessage\<close> one after another, each a pair of worker id and clock
  readings, as the storage layer serialises their transactions; the messages returned
  are collected in order.
\<close>

fun claim_all :: "(nat \<times> instant \<times> instant) list \<Rightarrow> store \<Rightarrow> QueueMessage list \<times> store" where
  "claim_all [] s = ([], s)"
| "claim_all ((workerId, now, ts) # cs) s =
     (case getNextMessage workerId now ts s of
        (None, s') \<Rightarrow> claim_all cs s'
      | (Some m, s') \<Rightarrow> (case claim_all cs s' of (ms, s'') \<Rightarrow> (m # ms, s'')))"

section \<open>The producer API (QueueManager.addMessage)\<close>

text \<open>
  The options object of \<open>QueueManager.addMessage\<close>; an omitted optional field is
  \<open>None\<close>. The payload is any value, serialised by \<open>JSON.stringify\<close>, which is taken as
  the parameter \<open>stringify\<close>.
\<close>

record 'p options =
  o_queue :: string
  o_payload :: 'p
  o_startAt :: "date option"
  o_maxRetries :: "int option"
  o_interval :: "rat option"
  o_maxRespawns :: "int option"
  o_cronPattern :: "string option"

text \<open>
  JavaScript's \<open>x || d\<close> on an optional number: \<open>d\<close> when \<open>x\<close> is undefined or \<open>0\<close>.
  A \<open>Date\<close> object is always truthy, an Invalid Date too, so
  \<open>options.startAt || new Date()\<close> only tests for presence.
\<close>

definition or_number :: "int option \<Rightarrow> int \<Rightarrow> int" where
  "or_number x d = (case x of None \<Rightarrow> d | Some v \<Rightarrow> if v = 0 then d else v)"

definition or_date :: "date option \<Rightarrow> date \<Rightarrow> date" where
  "or_date x d = (case x of None \<Rightarrow> d | Some v \<Rightarrow> v)"

definition QueueManager_addMessage ::
  "('p \<Rightarrow> string) \<Rightarrow> instant \<Rightarrow> instant \<Rightarrow> 'p options \<Rightarrow> store \<Rightarrow> error + nat \<times> store" where
  "QueueManager_addMessage stringify now ts opts s =
     addMessage ts
       \<lparr>queue = o_queue opts,
        payload = stringify (o_payload opts),
        status = Pending,
        startAt = or_date (o_startAt opts) (Date now),
        retryCount = 0,
        maxRetries = or_number (o_maxRetries opts) 0,
        interval = o_interval opts,
        respawnCount = 0,
        maxRespawns = or_number (o_maxRespawns opts) (- 1),
        cronPattern = o_cronPattern opts\<rparr> s"

section \<open>The dispatch channel (QueueWorker.processMessage, QueueManager.start)\<close>

text \<open>
  An object sent over the worker port. A property the object does not have reads as
  undefined, here \<open>None\<close>.
\<close>

record 'p wire =
  w_type :: string
  w_queue :: "string option"
  w_payload :: "'p option"
  w_messageId :: "nat option"
  w_result :: "bool option"
  w_error :: "string option"

text \<open>The object \<open>processMessage\<close> posts to the parent: \<open>{type: "process", queue, payload}\<close>.\<close>

definition process_request :: "'p \<Rightarrow> QueueMessage \<Rightarrow> 'p wire" where
  "process_request p message =
     \<lparr>w_type = ''process'', w_queue = Some (queue message), w_payload = Some p,
      w_messageId = None, w_result = None, w_error = None\<rparr>"

text \<open>
  The parent's \<open>worker.on("message", ...)\<close> handler. \<open>emitQueueEvent\<close> is the parameter
  that runs the listeners: \<open>None\<close> when the emit returns, \<open>Some msg\<close> when it throws an
  error with that message. The result is the list of objects posted back.
\<close>

definition manager_on_message ::
  "(string option \<Rightarrow> 'p option \<Rightarrow> string option) \<Rightarrow> 'p wire \<Rightarrow> 'p wire list" where
  "manager_on_message emitQueueEvent data =
     (if w_type data = ''process'' then
        (case emitQueueEvent (w_queue data) (w_payload data) of
           None \<Rightarrow>
             [\<lparr>w_type = ''processResult'', w_queue = None, w_payload = None,
               w_messageId = w_messageId data, w_result = Some True, w_error = None\<rparr>]
         | Some msg \<Rightarrow>
             [\<lparr>w_type = ''processResult'', w_queue = None, w_payload = None,
               w_messageId = w_messageId data, w_result = None, w_error = Some msg\<rparr>])
      else [])"

text \<open>
  The test of the worker's reply handler:
  \<open>data.type === "processResult" && data.messageId === message.id\<close>.
\<close>

definition handler_accepts :: "QueueMessage \<Rightarrow> 'p wire \<Rightarrow> bool" where
  "handler_accepts message data \<longleftrightarrow>
     w_type data = ''processResult'' \<and> w_messageId data = Some (msg_id message)"

text \<open>
  What the worker does is recorded next to the table: the calls it makes on the
  database, in order, and the objects it posts to the parent.
\<close>

datatype db_call =
    GetNextMessage nat
  | MarkMessageComplete nat
  | RescheduleMessage nat date
  | MarkMessageFailed nat

record 'p worker_state =
  db :: store
  db_calls :: "db_call list"
  posted :: "'p wire list"

text \<open>
  \<open>processMessage\<close>: \<open>parse\<close> is \<open>JSON.parse\<close> (\<open>None\<close> when it throws); \<open>parent\<close> gives the
  objects that arrive on the port within the 30 seconds after the request is posted.
  The promise settles at the first object the handler accepts, and is rejected with a
  timeout when there is none.
\<close>

definition processMessage ::
  "(string \<Rightarrow> 'p option) \<Rightarrow> ('p wire \<Rightarrow> 'p wire list) \<Rightarrow> QueueMessage \<Rightarrow> 'p worker_state
     \<Rightarrow> (error + unit) \<times> 'p worker_state" where
  "processMessage parse parent message w =
     (case parse (payload message) of
        None \<Rightarrow> (Inl SyntaxError, w)
      | Some p \<Rightarrow>
          (let request = process_request p message;
               w' = w\<lparr>posted := posted w @ [request]\<rparr>
           in case find (handler_accepts message) (parent request) of
                None \<Rightarrow> (Inl Timeout, w')
              | Some data \<Rightarrow>
                  (case w_error data of
                     None \<Rightarrow> (Inr (), w')
                   | Some e \<Rightarrow> if e = [] then (Inr (), w') else (Inl (HandlerError e), w'))))"

section \<open>The worker loop (QueueWorker.start)\<close>

text \<open>
  The calls of the worker on its database. A call is recorded when it is made; a call
  that throws leaves the table as it was and hands the error on.
\<close>

definition call_getNextMessage ::
  "nat \<Rightarrow> instant \<Rightarrow> instant \<Rightarrow> 'p worker_state \<Rightarrow> QueueMessage option \<times> 'p worker_state" where
  "call_getNextMessage workerId now ts w =
     (case getNextMessage workerId now ts (db w) of
        (r, s) \<Rightarrow> (r, w\<lparr>db := s, db_calls := db_calls w @ [GetNextMessage workerId]\<rparr>))"

definition call_markMessageComplete :: "instant \<Rightarrow> nat \<Rightarrow> 'p worker_state \<Rightarrow> 'p worker_state" where
  "call_markMessageComplete ts i w =
     w\<lparr>db := markMessageComplete ts i (db w), db_calls := db_calls w @ [MarkMessageComplete i]\<rparr>"

definition call_rescheduleMessage ::
  "instant \<Rightarrow> nat \<Rightarrow> date \<Rightarrow> 'p worker_state \<Rightarrow> error option \<times> 'p worker_state" where
  "call_rescheduleMessage ts i nextRunTime w =
     (case rescheduleMessage ts i nextRunTime (db w) of
        Inl e \<Rightarrow> (Some e, w\<lparr>db_calls := db_calls w @ [RescheduleMessage i nextRunTime]\<rparr>)
      | Inr s \<Rightarrow>
          (None, w\<lparr>db := s, db_calls := db_calls w @ [RescheduleMessage i nextRunTime]\<rparr>))"

definition call_markMessageFailed ::
  "instant \<Rightarrow> nat \<Rightarrow> 'p worker_state \<Rightarrow> error + 'p worker_state" where
  "call_markMessageFailed ts i w =
     (case markMessageFailed ts i (db w) of
        Inl e \<Rightarrow> Inl e
      | Inr s \<Rightarrow> Inr (w\<lparr>db := s, db_calls := db_calls w @ [MarkMessageFailed i]\<rparr>))"

text \<open>
  The clock readings of one iteration, in the order the source takes them: \<open>new Date()\<close>
  and \<open>CURRENT_TIMESTAMP\<close> of the claim, \<open>CURRENT_TIMESTAMP\<close> of the completion, the
  \<open>new Date()\<close> given to \<open>addMilliseconds\<close> and the timestamp of its reschedule, the
  current date of the cron parser and the timestamp of its reschedule, and the
  timestamp of \<open>markMessageFailed\<close>.
\<close>

record clock =
  claim_now :: instant
  claim_ts :: instant
  complete_ts :: instant
  interval_now :: instant
  interval_ts :: instant
  cron_now :: instant
  cron_ts :: instant
  failed_ts :: instant

text \<open>
  The two recurrence blocks of the \<open>try\<close>, each giving the error thrown, if any, and the
  state reached. \<open>if (message.interval)\<close> holds for a number other than \<open>0\<close>,
  \<open>if (message.cronPattern)\<close> for a string other than the empty one.
  \<open>cronNext pattern now\<close> is \<open>cronParser.parseExpression(pattern).next().toDate()\<close> of the
  cron-parser library, read at \<open>now\<close>: the time value of the \<open>Date\<close> it returns, or \<open>None\<close>
  when it throws.
\<close>

definition interval_based :: "clock \<Rightarrow> QueueMessage \<Rightarrow> 'p worker_state \<Rightarrow> error option \<times> 'p worker_state" where
  "interval_based clk message w =
     (case interval message of
        None \<Rightarrow> (None, w)
      | Some iv \<Rightarrow>
          if iv = 0 then (None, w)
          else if maxRespawns message = - 1 \<or> respawnCount message < maxRespawns message
          then call_rescheduleMessage (interval_ts clk) (msg_id message)
                 (addMilliseconds (interval_now clk) iv) w
          else (None, w))"

definition cron_based ::
  "(string \<Rightarrow> instant \<Rightarrow> instant option) \<Rightarrow> clock \<Rightarrow> QueueMessage \<Rightarrow> 'p worker_state
     \<Rightarrow> error option \<times> 'p worker_state" where
  "cron_based cronNext clk message w =
     (case cronPattern message of
        None \<Rightarrow> (None, w)
      | Some pat \<Rightarrow>
          if pat = [] then (None, w)
          else (case cronNext pat (cron_now clk) of
                  None \<Rightarrow> (Some CronError, w)
                | Some t \<Rightarrow> call_rescheduleMessage (cron_ts clk) (msg_id message) (Date t) w))"

text \<open>
  The body of the \<open>try\<close>: the first statement that throws ends it, with the table and
  the record of calls as they are at that point.
\<close>

definition try_block ::
  "(string \<Rightarrow> 'p option) \<Rightarrow> (string \<Rightarrow> instant \<Rightarrow> instant option) \<Rightarrow> clock
     \<Rightarrow> ('p wire \<Rightarrow> 'p wire list) \<Rightarrow> QueueMessage \<Rightarrow> 'p worker_state
     \<Rightarrow> error option \<times> 'p worker_state" where
  "try_block parse cronNext clk parent message w =
     (case processMessage parse parent message w of
        (Inl e, w1) \<Rightarrow> (Some e, w1)
      | (Inr _, w1) \<Rightarrow>
          (case interval_based clk message
                  (call_markMessageComplete (complete_ts clk) (msg_id message) w1) of
             (Some e, w3) \<Rightarrow> (Some e, w3)
           | (None, w3) \<Rightarrow> cron_based cronNext clk message w3))"

text \<open>
  One pass through the body of \<open>while (true)\<close>. An error thrown by \<open>markMessageFailed\<close> in
  the \<open>catch\<close> leaves \<open>start\<close>.
\<close>

definition start_iteration ::
  "(string \<Rightarrow> 'p option) \<Rightarrow> (string \<Rightarrow> instant \<Rightarrow> instant option) \<Rightarrow> nat \<Rightarrow> clock
     \<Rightarrow> ('p wire \<Rightarrow> 'p wire list) \<Rightarrow> 'p worker_state \<Rightarrow> error + 'p worker_state" where
  "start_iteration parse cronNext workerId clk parent w =
     (case call_getNextMessage workerId (claim_now clk) (claim_ts clk) w of
        (None, w0) \<Rightarrow> Inr w0
      | (Some message, w0) \<Rightarrow>
          (case try_block parse cronNext clk parent message w0 of
             (None, w1) \<Rightarrow> Inr w1
           | (Some e, w1) \<Rightarrow> call_markMessageFailed (failed_ts clk) (msg_id message) w1))"

text \<open>
  The loop never ends by itself; \<open>start\<close> runs it for as many iterations as the list
  gives clock readings and parent behaviours.
\<close>

fun start :: "(string \<Rightarrow> 'p option) \<Rightarrow> (string \<Rightarrow> instant \<Rightarrow> instant option) \<Rightarrow> nat
     \<Rightarrow> (clock \<times> ('p wire \<Rightarrow> 'p wire list)) list \<Rightarrow> 'p worker_state \<Rightarrow> error + 'p worker_state" where
  "start parse cronNext workerId [] w = Inr w"
| "start parse cronNext workerId ((clk, parent) # rest) w =
     (case start_iteration parse cronNext workerId clk parent w of
        Inl e \<Rightarrow> Inl e
      | Inr w' \<Rightarrow> start parse cronNext workerId rest w')"

definition is_reschedule :: "db_call \<Rightarrow> bool" where
  "is_reschedule c = (case c of RescheduleMessage i t \<Rightarrow> True | _ \<Rightarrow> False)"

section \<open>The cron parser\<close>

text \<open>
  Modelled from the spec: the cron parser (the package cron-parser, whose code is not
  under src/). The spec says: "parse the 5-field cron expression; next run = the next
  matching instant strictly after now", and a malformed pattern is an error.
  \<open>parseExpression\<close> gives, for a well-formed pattern, the test that tells whether a
  whole minute matches it; \<open>cron_next\<close> tries the whole minutes after \<open>now\<close> in turn, at
  most \<open>horizon\<close> of them, and fails when none matches.
\<close>

fun next_match :: "(instant \<Rightarrow> bool) \<Rightarrow> instant \<Rightarrow> nat \<Rightarrow> instant option" where
  "next_match matches t 0 = None"
| "next_match matches t (Suc n) =
     (if matches t then Some t else next_match matches (t + 60000) n)"

definition cron_next ::
  "(string \<Rightarrow> (instant \<Rightarrow> bool) option) \<Rightarrow> nat \<Rightarrow> string \<Rightarrow> instant \<Rightarrow> instant option" where
  "cron_next parseExpression horizon pat now =
     (case parseExpression pat of
        None \<Rightarrow> None
      | Some matches \<Rightarrow> next_match matches ((now div 60000 + 1) * 60000) horizon)"

section \<open>Concrete inputs\<close>

text \<open>
  Stores, messages, clocks and parents on which the theorems below are evaluated. A
  \<open>demo_row\<close> has no retries left and no recurrence; its \<open>startAt\<close> is the text of the
  instant given.
\<close>

definition demo_row :: "nat \<Rightarrow> status \<Rightarrow> instant \<Rightarrow> QueueMessage" where
  "demo_row i st t =
     \<lparr>queue = ''test'', payload = ''{}'', status = st, startAt = iso t, retryCount = 0,
      maxRetries = 0, interval = None, respawnCount = 0, maxRespawns = - 1,
      cronPattern = None, msg_id = i, createdAt = 0, updatedAt = 0\<rparr>"

definition demo_store :: store where
  "demo_store =
     \<lparr>rows = [demo_row 1 Processing 10, demo_row 2 Pending 40, demo_row 3 Pending 20,
              demo_row 4 Pending 90],
      last_rowid = 4\<rparr>"

definition completed_twice_store :: store where
  "completed_twice_store = \<lparr>rows = [demo_row 1 Processing 10], last_rowid = 1\<rparr>"

definition demo_callers :: "(nat \<times> instant \<times> instant) list" where
  "demo_callers = [(0, 50, 51), (1, 50, 52), (0, 60, 61), (1, 95, 95)]"


text \<open>A claimed message that may be retried once.\<close>

definition retry_row :: QueueMessage where
  "retry_row = (demo_row 1 Processing 10)\<lparr>maxRetries := 1\<rparr>"

definition retry_store :: store where
  "retry_store = \<lparr>rows = [retry_row, demo_row 2 Pending 40], last_rowid = 2\<rparr>"

text \<open>
  A parent that answers every request with a successful \<open>processResult\<close> for message
  \<open>i\<close>: the reply the worker waits for. The payloads of the concrete inputs are strings,
  parsed by \<open>Some\<close>.
\<close>

definition answering_parent :: "nat \<Rightarrow> string wire \<Rightarrow> string wire list" where
  "answering_parent i request =
     [\<lparr>w_type = ''processResult'', w_queue = None, w_payload = None,
       w_messageId = Some i, w_result = Some True, w_error = None\<rparr>]"

text \<open>
  The clock readings of an iteration that claims at \<open>t\<close>, settles one millisecond
  later and reads the cron date one millisecond after that.
\<close>

definition tick :: "instant \<Rightarrow> clock" where
  "tick t =
     \<lparr>claim_now = t, claim_ts = t, complete_ts = t + 1, interval_now = t + 1,
      interval_ts = t + 1, cron_now = t + 2, cron_ts = t + 2, failed_ts = t + 2\<rparr>"

text \<open>
  The cron parser on the pattern of the repository's test, \<open>* * * * *\<close>, which every
  minute matches. Every other pattern is rejected here.
\<close>

definition star_pattern :: "string \<Rightarrow> (instant \<Rightarrow> bool) option" where
  "star_pattern pat = (if pat = ''* * * * *'' then Some (\<lambda>t. True) else None)"

definition every_minute :: "string \<Rightarrow> instant \<Rightarrow> instant option" where
  "every_minute = cron_next star_pattern 1"

text \<open>
  The interval message of the repository's test (\<open>interval: 1000, maxRespawns: 2\<close>),
  added to an empty table at instant \<open>0\<close>, and four iterations of one worker that
  are each answered successfully.
\<close>

definition empty_store :: store where
  "empty_store = \<lparr>rows = [], last_rowid = 0\<rparr>"

definition interval_options :: "string options" where
  "interval_options =
     \<lparr>o_queue = ''test'', o_payload = ''interval'', o_startAt = None, o_maxRetries = None,
      o_interval = Some 1000, o_maxRespawns = Some 2, o_cronPattern = None\<rparr>"

definition interval_start :: "string worker_state" where
  "interval_start =
     \<lparr>db = (case QueueManager_addMessage (\<lambda>p. p) 0 0 interval_options empty_store of
              Inl e \<Rightarrow> empty_store
            | Inr (i, s) \<Rightarrow> s),
      db_calls = [], posted = []\<rparr>"

definition four_iterations :: "(clock \<times> (string wire \<Rightarrow> string wire list)) list" where
  "four_iterations =
     [(tick 0, answering_parent 1), (tick 1100, answering_parent 1),
      (tick 2200, answering_parent 1), (tick 3300, answering_parent 1)]"

text \<open>
  A message with both an interval and a cron pattern; the same with an interval of
  9e15 milliseconds; messages with a negative interval and with an interval of half a
  millisecond; and a worker whose table holds one such message, before and after the
  claim.
\<close>

definition both_message :: QueueMessage where
  "both_message =
     (demo_row 1 Pending 0)\<lparr>interval := Some 1000, cronPattern := Some ''* * * * *''\<rparr>"

definition huge_message :: QueueMessage where
  "huge_message = both_message\<lparr>interval := Some 9000000000000000\<rparr>"



definition pending_worker :: "QueueMessage \<Rightarrow> string worker_state" where
  "pending_worker m =
     \<lparr>db = \<lparr>rows = [m], last_rowid = msg_id m\<rparr>, db_calls = [], posted = []\<rparr>"

definition claimed_worker :: "QueueMessage \<Rightarrow> string worker_state" where
  "claimed_worker m =
     \<lparr>db = \<lparr>rows = [m\<lparr>status := Processing\<rparr>], last_rowid = msg_id m\<rparr>,
      db_calls = [GetNextMessage 0], posted = []\<rparr>"

section \<open>The order of texts\<close>




lemma text_le_antisym: "text_le xs ys \<Longrightarrow> text_le ys xs \<Longrightarrow> xs = ys"
proof (induction xs arbitrary: ys)
  case Nil
  then show ?case by (cases ys) simp_all
next
  case (Cons x xs)
  from Cons.prems(1) obtain y ys' where ys: "ys = y # ys'" by (cases ys) auto
  show ?case
  proof (cases "x = y")
    case True
    with Cons.prems ys Cons.IH [of ys'] show ?thesis by simp
  next
    case False
    with Cons.prems ys have "(of_char x :: nat) < of_char y" "(of_char y :: nat) < of_char x"
      by simp_all
    then show ?thesis by simp
  qed
qed

section \<open>Properties of the store\<close>

lemma oldest_None: "oldest ms = None \<longleftrightarrow> ms = []"
  by (cases ms) (auto split: option.splits)

lemma oldest_mem: "oldest ms = Some m \<Longrightarrow> m \<in> set ms"
  by (induction ms arbitrary: m) (auto split: option.splits if_splits)


lemma rows_update_where_id:
  "rows (update_where_id i f s) = map (\<lambda>r. if msg_id r = i then f r else r) (rows s)"
  by (simp add: update_where_id_def)

lemma last_rowid_update_where_id: "last_rowid (update_where_id i f s) = last_rowid s"
  by (simp add: update_where_id_def)

lemma in_rows_update_where_id:
  "r \<in> set (rows (update_where_id i f s)) \<longleftrightarrow>
     (\<exists>x \<in> set (rows s). r = (if msg_id x = i then f x else x))"
  unfolding rows_update_where_id set_map image_iff ..

lemma updated_row:
  assumes "r \<in> set (rows (update_where_id i f s))" and "msg_id r = i"
    and "\<And>x. msg_id (f x) = msg_id x"
  shows "\<exists>x \<in> set (rows s). msg_id x = i \<and> r = f x"
proof -
  from assms(1) obtain x where x: "x \<in> set (rows s)"
    and r: "r = (if msg_id x = i then f x else x)"
    unfolding in_rows_update_where_id by blast
  show ?thesis
  proof (cases "msg_id x = i")
    case True
    with x r show ?thesis by auto
  next
    case False
    with r have "msg_id r = msg_id x" by simp
    with False assms(2) show ?thesis by simp
  qed
qed

lemma update_where_id_twice:
  assumes "\<And>r. msg_id (g r) = msg_id r"
  shows "update_where_id i f (update_where_id i g s) = update_where_id i (\<lambda>r. f (g r)) s"
proof -
  have "(\<lambda>r. if msg_id r = i then f r else r) \<circ> (\<lambda>r. if msg_id r = i then g r else r) =
      (\<lambda>r. if msg_id r = i then f (g r) else r)"
    by (rule ext) (simp add: assms)
  then show ?thesis by (simp add: update_where_id_def)
qed

lemma find_by_key_distinct:
  "distinct (map f xs) \<Longrightarrow> x \<in> set xs \<Longrightarrow> find (\<lambda>r. f r = f x) xs = Some x"
  by (induction xs) (auto simp: image_iff)

lemma find_by_key_map:
  "(\<And>r. f (g r) = f r) \<Longrightarrow> find (\<lambda>r. f r = i) (map g xs) = map_option g (find (\<lambda>r. f r = i) xs)"
  by (induction xs) auto

lemma find_by_key_None: "find (\<lambda>r. f r = i) xs = None \<longleftrightarrow> i \<notin> f ` set xs"
  by (induction xs) auto

lemma find_None_filter: "filter P xs = [] \<Longrightarrow> find P xs = None"
  by (induction xs) (auto split: if_splits)

lemma select_by_id_distinct:
  "distinct (map msg_id (rows s)) \<Longrightarrow> m \<in> set (rows s) \<Longrightarrow> select_by_id (msg_id m) s = Some m"
  unfolding select_by_id_def by (rule find_by_key_distinct)

lemma select_by_id_update:
  assumes "\<And>r. msg_id (f r) = msg_id r"
  shows "select_by_id i (update_where_id i f s) = map_option f (select_by_id i s)"
proof -
  let ?g = "\<lambda>r. if msg_id r = i then f r else r"
  have k: "\<And>r. msg_id (?g r) = msg_id r" using assms by simp
  have "find (\<lambda>r. msg_id r = i) (map ?g (rows s)) = map_option ?g (find (\<lambda>r. msg_id r = i) (rows s))"
    by (rule find_by_key_map) (rule k)
  moreover have "map_option ?g (find (\<lambda>r. msg_id r = i) (rows s)) = map_option f (find (\<lambda>r. msg_id r = i) (rows s))"
    by (cases "find (\<lambda>r. msg_id r = i) (rows s)") (auto dest: find_Some_iff [THEN iffD1])
  ultimately show ?thesis by (simp add: select_by_id_def rows_update_where_id)
qed

section \<open>The claim of a message (getNextMessage)\<close>

lemma getNextMessage_Some:
  assumes "getNextMessage w now ts s = (Some m, s')"
  shows "m \<in> set (rows s)" and "eligible (iso now) m"
    and "s' = update_where_id (msg_id m) (\<lambda>r. r\<lparr>status := Processing, updatedAt := ts\<rparr>) s"
proof -
  from assms have o: "oldest (filter (eligible (iso now)) (rows s)) = Some m"
    by (auto simp: getNextMessage_def split: option.splits)
  from oldest_mem [OF o] show "m \<in> set (rows s)" and "eligible (iso now) m" by auto
  from assms o show "s' = update_where_id (msg_id m) (\<lambda>r. r\<lparr>status := Processing, updatedAt := ts\<rparr>) s"
    by (simp add: getNextMessage_def)
qed


lemma getNextMessage_None:
  assumes "getNextMessage w now ts s = (None, s')"
  shows "s' = s" and "\<forall>m \<in> set (rows s). \<not> eligible (iso now) m"
proof -
  from assms have o: "oldest (filter (eligible (iso now)) (rows s)) = None"
    by (auto simp: getNextMessage_def split: option.splits)
  from assms o show "s' = s" by (simp add: getNextMessage_def)
  from o have "filter (eligible (iso now)) (rows s) = []" by (simp add: oldest_None)
  then show "\<forall>m \<in> set (rows s). \<not> eligible (iso now) m" by (simp add: filter_empty_conv)
qed






lemma getNextMessage_marks_processing:
  assumes "getNextMessage w now ts s = (Some m, s1)"
  shows "\<forall>r \<in> set (rows s1). msg_id r = msg_id m \<longrightarrow> status r = Processing"
  by (auto simp: getNextMessage_Some(3) [OF assms] rows_update_where_id)

lemma getNextMessage_keeps_processing:
  assumes "getNextMessage w now ts s = (x, s1)"
    and "\<forall>r \<in> set (rows s). msg_id r = i \<longrightarrow> status r = Processing"
  shows "\<forall>r \<in> set (rows s1). msg_id r = i \<longrightarrow> status r = Processing"
proof (cases x)
  case None
  with assms(1) have "s1 = s" by (simp add: getNextMessage_None(1))
  with assms(2) show ?thesis by simp
next
  case (Some m)
  with assms(1) have "getNextMessage w now ts s = (Some m, s1)" by simp
  from getNextMessage_Some(3) [OF this] assms(2) show ?thesis
    by (auto simp: rows_update_where_id)
qed

lemma getNextMessage_pending_rows:
  assumes "getNextMessage w now ts s = (x, s1)" and "r \<in> set (rows s1)" and "status r = Pending"
  shows "r \<in> set (rows s)"
proof (cases x)
  case None
  with assms(1) have "s1 = s" by (simp add: getNextMessage_None(1))
  with assms(2) show ?thesis by simp
next
  case (Some m)
  with assms(1) have "getNextMessage w now ts s = (Some m, s1)" by simp
  from getNextMessage_Some(3) [OF this] assms(2,3) show ?thesis
    by (auto simp: rows_update_where_id split: if_splits)
qed

lemma claim_all_keeps_processing:
  "claim_all cs s = (ms, s') \<Longrightarrow> \<forall>r \<in> set (rows s). msg_id r = i \<longrightarrow> status r = Processing
     \<Longrightarrow> \<forall>r \<in> set (rows s'). msg_id r = i \<longrightarrow> status r = Processing"
proof (induction cs arbitrary: s ms)
  case Nil
  then show ?case by simp
next
  case (Cons c cs)
  obtain w now ts where c: "c = (w, now, ts)" by (cases c) auto
  obtain x s1 where g: "getNextMessage w now ts s = (x, s1)" by (cases "getNextMessage w now ts s")
  obtain ms1 where r: "claim_all cs s1 = (ms1, s')"
    using Cons.prems(1) c g by (cases x; cases "claim_all cs s1") auto
  from getNextMessage_keeps_processing [OF g Cons.prems(2)] Cons.IH [OF r] show ?case by blast
qed

lemma claim_all_pending:
  "claim_all cs s = (ms, s') \<Longrightarrow> m \<in> set ms \<Longrightarrow> m \<in> set (rows s) \<and> status m = Pending"
proof (induction cs arbitrary: s ms)
  case Nil
  then show ?case by simp
next
  case (Cons c cs)
  obtain w now ts where c: "c = (w, now, ts)" by (cases c) auto
  obtain x s1 where g: "getNextMessage w now ts s = (x, s1)" by (cases "getNextMessage w now ts s")
  obtain ms1 where r: "claim_all cs s1 = (ms1, s')"
    using Cons.prems(1) c g by (cases x; cases "claim_all cs s1") auto
  have tl: "m \<in> set ms1 \<Longrightarrow> ?case"
  proof -
    assume "m \<in> set ms1"
    from Cons.IH [OF r this] have "m \<in> set (rows s1)" and p: "status m = Pending" by simp_all
    from getNextMessage_pending_rows [OF g this] p show ?case by simp
  qed
  show ?case
  proof (cases x)
    case None
    with Cons.prems c g r have "ms = ms1" by simp
    with Cons.prems(2) tl show ?thesis by simp
  next
    case (Some m0)
    with Cons.prems c g r have ms: "ms = m0 # ms1" by simp
    from g Some have g': "getNextMessage w now ts s = (Some m0, s1)" by simp
    from getNextMessage_Some(1,2) [OF g'] have "m0 \<in> set (rows s)" "status m0 = Pending"
      by (simp_all add: eligible_def)
    with ms Cons.prems(2) tl show ?thesis by auto
  qed
qed

lemma claim_all_distinct_ids: "claim_all cs s = (ms, s') \<Longrightarrow> distinct (map msg_id ms)"
proof (induction cs arbitrary: s ms)
  case Nil
  then show ?case by simp
next
  case (Cons c cs)
  obtain w now ts where c: "c = (w, now, ts)" by (cases c) auto
  obtain x s1 where g: "getNextMessage w now ts s = (x, s1)" by (cases "getNextMessage w now ts s")
  obtain ms1 where r: "claim_all cs s1 = (ms1, s')"
    using Cons.prems(1) c g by (cases x; cases "claim_all cs s1") auto
  note d = Cons.IH [OF r]
  show ?case
  proof (cases x)
    case None
    with Cons.prems c g r have "ms = ms1" by simp
    with d show ?thesis by simp
  next
    case (Some m0)
    with Cons.prems c g r have ms: "ms = m0 # ms1" by simp
    from g Some have g': "getNextMessage w now ts s = (Some m0, s1)" by simp
    have "msg_id m0 \<notin> msg_id ` set ms1"
    proof
      assume "msg_id m0 \<in> msg_id ` set ms1"
      then obtain m where m: "m \<in> set ms1" and i: "msg_id m = msg_id m0" by auto
      from claim_all_pending [OF r m] have "m \<in> set (rows s1)" and p: "status m = Pending"
        by simp_all
      with getNextMessage_marks_processing [OF g'] i have "status m = Processing" by blast
      with p show False by simp
    qed
    with d ms show ?thesis by simp
  qed
qed

lemma claim_all_marked:
  "claim_all cs s = (ms, s') \<Longrightarrow> m \<in> set ms
     \<Longrightarrow> \<forall>r \<in> set (rows s'). msg_id r = msg_id m \<longrightarrow> status r = Processing"
proof (induction cs arbitrary: s ms)
  case Nil
  then show ?case by simp
next
  case (Cons c cs)
  obtain w now ts where c: "c = (w, now, ts)" by (cases c) auto
  obtain x s1 where g: "getNextMessage w now ts s = (x, s1)" by (cases "getNextMessage w now ts s")
  obtain ms1 where r: "claim_all cs s1 = (ms1, s')"
    using Cons.prems(1) c g by (cases x; cases "claim_all cs s1") auto
  show ?case
  proof (cases "m \<in> set ms1")
    case True
    from Cons.IH [OF r True] show ?thesis .
  next
    case False
    with Cons.prems c g r obtain g': "getNextMessage w now ts s = (Some m, s1)"
      by (cases x) auto
    from claim_all_keeps_processing [OF r getNextMessage_marks_processing [OF g']]
    show ?thesis .
  qed
qed

text \<open>
  Claim C1. Callers of \<open>getNextMessage\<close> whose transactions run one after another are
  never given the same message: the ids returned are pairwise distinct, every message
  returned was a row stored as pending, every returned id is stored as processing
  afterwards, and (ids being unique) no row stored as processing is returned.
\<close>

theorem claim_all_at_most_one_holder:
  "claim_all callers s = (ms, s') \<Longrightarrow>
     distinct (map msg_id ms) \<and>
     (\<forall>m \<in> set ms. m \<in> set (rows s) \<and> status m = Pending) \<and>
     (\<forall>m \<in> set ms. \<forall>r \<in> set (rows s'). msg_id r = msg_id m \<longrightarrow> status r = Processing) \<and>
     (distinct (map msg_id (rows s)) \<longrightarrow>
        (\<forall>r \<in> set (rows s). status r = Processing \<longrightarrow> msg_id r \<notin> msg_id ` set ms))"
proof (intro conjI ballI impI)
  assume c: "claim_all callers s = (ms, s')"
  show "distinct (map msg_id ms)" by (rule claim_all_distinct_ids [OF c])
  show "m \<in> set (rows s)" "status m = Pending" if "m \<in> set ms" for m
    using claim_all_pending [OF c that] by simp_all
  show "status r = Processing" if "m \<in> set ms" "r \<in> set (rows s')" "msg_id r = msg_id m" for m r
    using claim_all_marked [OF c that(1)] that(2,3) by blast
  show "msg_id r \<notin> msg_id ` set ms"
    if d: "distinct (map msg_id (rows s))" and r: "r \<in> set (rows s)" and p: "status r = Processing" for r
  proof
    assume "msg_id r \<in> msg_id ` set ms"
    then obtain m where m: "m \<in> set ms" and i: "msg_id m = msg_id r" by auto
    from claim_all_pending [OF c m] have "m \<in> set (rows s)" and q: "status m = Pending" by simp_all
    with d r i have "m = r" by (meson distinct_map inj_onD)
    with p q show False by simp
  qed
qed

theorem claim_all_at_most_one_holder_witness:
  "map msg_id (fst (claim_all demo_callers demo_store)) = [3, 2, 4] \<and>
   distinct (map msg_id (fst (claim_all demo_callers demo_store))) \<and>
   map status (rows (snd (claim_all demo_callers demo_store))) =
     [Processing, Processing, Processing, Processing]"
proof -
  have e: "map msg_id (fst (claim_all demo_callers demo_store)) = [3, 2, 4]"
    "map status (rows (snd (claim_all demo_callers demo_store))) =
       [Processing, Processing, Processing, Processing]"
    by code_simp+
  from claim_all_at_most_one_holder [OF surjective_pairing [of "claim_all demo_callers demo_store"]]
  have "distinct (map msg_id (fst (claim_all demo_callers demo_store)))" by blast
  with e show ?thesis by blast
qed


section \<open>Completion and failure (markMessageComplete, markMessageFailed)\<close>

text \<open>
  Claim C8, as amended. \<open>markMessageComplete\<close> stores the status completed for the id and
  cannot fail. A second call rewrites \<open>updatedAt\<close> with its own timestamp and changes
  nothing else: two calls leave the state of one call made at the second timestamp, and
  the state of the first call in every column but \<open>updatedAt\<close>.
\<close>

theorem markMessageComplete_repeated:
  "(\<forall>r \<in> set (rows (markMessageComplete ts i s)). msg_id r = i \<longrightarrow> status r = Completed) \<and>
   markMessageComplete tb i (markMessageComplete ta i s) = markMessageComplete tb i s \<and>
   markMessageComplete ts i (markMessageComplete ts i s) = markMessageComplete ts i s \<and>
   map (\<lambda>r. r\<lparr>updatedAt := 0\<rparr>) (rows (markMessageComplete tb i (markMessageComplete ta i s))) =
     map (\<lambda>r. r\<lparr>updatedAt := 0\<rparr>) (rows (markMessageComplete ta i s)) \<and>
   last_rowid (markMessageComplete tb i (markMessageComplete ta i s)) =
     last_rowid (markMessageComplete ta i s)"
proof -
  have a: "status r = Completed" if "r \<in> set (rows (markMessageComplete ts i s))" "msg_id r = i" for r
  proof -
    from that have "\<exists>x \<in> set (rows s). msg_id x = i \<and> r = x\<lparr>status := Completed, updatedAt := ts\<rparr>"
      unfolding markMessageComplete_def by (intro updated_row) simp_all
    then show ?thesis by auto
  qed
  have b: "markMessageComplete t2 i (markMessageComplete t1 i s) = markMessageComplete t2 i s" for t1 t2
    unfolding markMessageComplete_def by (subst update_where_id_twice) simp_all
  have c: "map (\<lambda>r. r\<lparr>updatedAt := 0\<rparr>) (rows (markMessageComplete t i s)) =
      map (\<lambda>r. if msg_id r = i then r\<lparr>status := Completed, updatedAt := 0\<rparr> else r\<lparr>updatedAt := 0\<rparr>) (rows s)" for t
    unfolding markMessageComplete_def rows_update_where_id map_map
    by (rule map_cong [OF refl]) simp
  have d: "last_rowid (markMessageComplete t i s) = last_rowid s" for t
    by (simp add: markMessageComplete_def last_rowid_update_where_id)
  show ?thesis
  proof (intro conjI ballI impI)
    show "status r = Completed" if "r \<in> set (rows (markMessageComplete ts i s))" "msg_id r = i" for r
      using that by (rule a)
  qed (simp_all only: b c d)
qed

theorem markMessageComplete_repeated_witness:
  "map status (rows (markMessageComplete 1000 1 demo_store)) = [Completed, Pending, Pending, Pending] \<and>
   markMessageComplete 2000 1 (markMessageComplete 1000 1 demo_store) = markMessageComplete 2000 1 demo_store"
proof -
  have "map status (rows (markMessageComplete 1000 1 demo_store)) = [Completed, Pending, Pending, Pending]"
    by (simp add: markMessageComplete_def update_where_id_def demo_store_def demo_row_def)
  with markMessageComplete_repeated [where ts = 1000 and ta = 1000 and tb = 2000 and i = 1 and s = demo_store]
  show ?thesis by blast
qed

theorem markMessageComplete_second_call_counterexample:
  "markMessageComplete 2000 1 (markMessageComplete 1000 1 completed_twice_store)
     \<noteq> markMessageComplete 1000 1 completed_twice_store"
  by (simp add: markMessageComplete_def update_where_id_def completed_twice_store_def demo_row_def)

text \<open>
  Claim C6. For a stored message, \<open>markMessageFailed\<close> succeeds and rewrites only that
  row: when \<open>retryCount < maxRetries\<close> the status becomes pending and \<open>retryCount\<close> grows
  by exactly one, otherwise the status becomes failed and the row is not eligible at any
  instant; \<open>startAt\<close> and \<open>maxRetries\<close> are unchanged, and \<open>retryCount \<le> maxRetries\<close> is
  preserved.
\<close>

theorem markMessageFailed_retry_or_fail:
  assumes d: "distinct (map msg_id (rows s))" and m: "m \<in> set (rows s)"
  shows "\<exists>s'. markMessageFailed ts (msg_id m) s = Inr s' \<and>
     select_by_id (msg_id m) s' =
       Some (if retryCount m < maxRetries m
             then m\<lparr>status := Pending, retryCount := retryCount m + 1, updatedAt := ts\<rparr>
             else m\<lparr>status := Failed, updatedAt := ts\<rparr>) \<and>
     (\<forall>r \<in> set (rows s). msg_id r \<noteq> msg_id m \<longrightarrow> r \<in> set (rows s')) \<and>
     length (rows s') = length (rows s) \<and>
     (\<forall>r \<in> set (rows s'). msg_id r = msg_id m \<longrightarrow>
        startAt r = startAt m \<and> maxRetries r = maxRetries m \<and>
        (retryCount m < maxRetries m \<longrightarrow>
           status r = Pending \<and> retryCount r = retryCount m + 1 \<and> retryCount r \<le> maxRetries r) \<and>
        (\<not> retryCount m < maxRetries m \<longrightarrow>
           status r = Failed \<and> retryCount r = retryCount m \<and> (\<forall>now. \<not> eligible now r)) \<and>
        (retryCount m \<le> maxRetries m \<longrightarrow> retryCount r \<le> maxRetries r))"
proof -
  note sel = select_by_id_distinct [OF d m]
  have same: "r = m" if "r \<in> set (rows s)" "msg_id r = msg_id m" for r
    using d m that by (meson distinct_map inj_onD)
  show ?thesis
  proof (cases "retryCount m < maxRetries m")
    case True
    let ?f = "\<lambda>r. r\<lparr>status := Pending, retryCount := retryCount r + 1, updatedAt := ts\<rparr>"
    let ?s = "update_where_id (msg_id m) ?f s"
    have r: "markMessageFailed ts (msg_id m) s = Inr ?s"
      using True by (simp add: markMessageFailed_def sel)
    have "select_by_id (msg_id m) ?s = map_option ?f (select_by_id (msg_id m) s)"
      by (rule select_by_id_update) simp
    then have g: "select_by_id (msg_id m) ?s = Some (?f m)" by (simp add: sel)
    have o: "\<forall>r \<in> set (rows s). msg_id r \<noteq> msg_id m \<longrightarrow> r \<in> set (rows ?s)"
      by (force simp: rows_update_where_id)
    have l: "length (rows ?s) = length (rows s)" by (simp add: rows_update_where_id)
    have e: "r = ?f m" if "r \<in> set (rows ?s)" "msg_id r = msg_id m" for r
      using that same by (auto simp: rows_update_where_id split: if_splits)
    from r g o l True show ?thesis by (auto dest!: e)
  next
    case False
    let ?f = "\<lambda>r. r\<lparr>status := Failed, updatedAt := ts\<rparr>"
    let ?s = "update_where_id (msg_id m) ?f s"
    have r: "markMessageFailed ts (msg_id m) s = Inr ?s"
      using False by (simp add: markMessageFailed_def sel)
    have "select_by_id (msg_id m) ?s = map_option ?f (select_by_id (msg_id m) s)"
      by (rule select_by_id_update) simp
    then have g: "select_by_id (msg_id m) ?s = Some (?f m)" by (simp add: sel)
    have o: "\<forall>r \<in> set (rows s). msg_id r \<noteq> msg_id m \<longrightarrow> r \<in> set (rows ?s)"
      by (force simp: rows_update_where_id)
    have l: "length (rows ?s) = length (rows s)" by (simp add: rows_update_where_id)
    have e: "r = ?f m" if "r \<in> set (rows ?s)" "msg_id r = msg_id m" for r
      using that same by (auto simp: rows_update_where_id split: if_splits)
    from r g o l False show ?thesis by (auto simp: eligible_def dest!: e)
  qed
qed

theorem markMessageFailed_retry_or_fail_witness:
  "distinct (map msg_id (rows retry_store)) \<and> retry_row \<in> set (rows retry_store) \<and>
   markMessageFailed 70 1 retry_store =
     Inr \<lparr>rows = [retry_row\<lparr>status := Pending, retryCount := 1, updatedAt := 70\<rparr>,
                  demo_row 2 Pending 40], last_rowid = 2\<rparr> \<and>
   select_by_id 1 \<lparr>rows = [retry_row\<lparr>status := Pending, retryCount := 1, updatedAt := 70\<rparr>,
                  demo_row 2 Pending 40], last_rowid = 2\<rparr> =
     Some (retry_row\<lparr>status := Pending, retryCount := 1, updatedAt := 70\<rparr>)"
proof -
  have d: "distinct (map msg_id (rows retry_store))"
    by (simp add: retry_store_def retry_row_def demo_row_def)
  have m: "retry_row \<in> set (rows retry_store)" by (simp add: retry_store_def)
  have i: "msg_id retry_row = 1" "retryCount retry_row = 0" "maxRetries retry_row = 1"
    by (simp_all add: retry_row_def demo_row_def)
  have e: "markMessageFailed 70 1 retry_store =
     Inr \<lparr>rows = [retry_row\<lparr>status := Pending, retryCount := 1, updatedAt := 70\<rparr>,
                  demo_row 2 Pending 40], last_rowid = 2\<rparr>"
    by (simp add: markMessageFailed_def select_by_id_def update_where_id_def retry_store_def i)
      (simp add: demo_row_def)
  from markMessageFailed_retry_or_fail [OF d m, of 70] d m e show ?thesis
    unfolding i by auto
qed

text \<open>
  Claim C10. \<open>markMessageFailed\<close> throws a TypeError for an id that has no row, and
  returns normally for an id that has one.
\<close>

theorem markMessageFailed_requires_row:
  "(i \<notin> msg_id ` set (rows s) \<longrightarrow> markMessageFailed ts i s = Inl TypeError) \<and>
   (i \<in> msg_id ` set (rows s) \<longrightarrow> (\<exists>s'. markMessageFailed ts i s = Inr s'))"
proof (cases "select_by_id i s")
  case None
  then have "i \<notin> msg_id ` set (rows s)" by (simp add: select_by_id_def find_by_key_None)
  with None show ?thesis by (simp add: markMessageFailed_def)
next
  case (Some m)
  then have "find (\<lambda>r. msg_id r = i) (rows s) \<noteq> None" by (simp add: select_by_id_def)
  then have "i \<in> msg_id ` set (rows s)" by (simp add: find_by_key_None)
  with Some show ?thesis by (simp add: markMessageFailed_def)
qed

theorem markMessageFailed_requires_row_witness:
  "9 \<notin> msg_id ` set (rows demo_store) \<and> markMessageFailed 5 9 demo_store = Inl TypeError \<and>
   2 \<in> msg_id ` set (rows demo_store) \<and>
   markMessageFailed 5 2 demo_store =
     Inr (update_where_id 2 (\<lambda>r. r\<lparr>status := Failed, updatedAt := 5\<rparr>) demo_store)"
proof -
  have a: "9 \<notin> msg_id ` set (rows demo_store)" "2 \<in> msg_id ` set (rows demo_store)"
    by (simp_all add: demo_store_def demo_row_def)
  have b: "markMessageFailed 5 2 demo_store =
     Inr (update_where_id 2 (\<lambda>r. r\<lparr>status := Failed, updatedAt := 5\<rparr>) demo_store)"
    by (simp add: markMessageFailed_def select_by_id_def demo_store_def demo_row_def)
  from markMessageFailed_requires_row [of 9 demo_store 5] a b show ?thesis by blast
qed

section \<open>Defaults of the producer API\<close>

lemma QueueManager_addMessage_Inr:
  assumes "QueueManager_addMessage stringify now ts opts s = Inr (i, s')"
  shows "rows s' = rows s @ [last (rows s')]" and "msg_id (last (rows s')) = i"
    and "maxRespawns (last (rows s')) = or_number (o_maxRespawns opts) (- 1)"
  using assms
  by (auto simp: QueueManager_addMessage_def addMessage_def Let_def split: sum.splits)

lemma QueueManager_addMessage_valid:
  assumes "or_date (o_startAt opts) (Date now) = Date t"
  shows "\<exists>i s'. QueueManager_addMessage stringify now ts opts s = Inr (i, s') \<and>
     maxRespawns (last (rows s')) = or_number (o_maxRespawns opts) (- 1)"
  by (simp add: QueueManager_addMessage_def addMessage_def toISOString_def assms Let_def)

text \<open>
  Claim C9, as amended. \<open>QueueManager.addMessage\<close> with \<open>maxRespawns\<close> passed as \<open>0\<close> does
  what it does with \<open>maxRespawns\<close> omitted, and the row it stores has
  \<open>maxRespawns = -1\<close>; passing \<open>-1\<close> is no different from omitting it either. Every
  non-zero value is stored as passed, so that, when a row is stored at all, passing a
  value has the result of omitting it exactly for the values \<open>0\<close> and \<open>-1\<close>.
\<close>

theorem addMessage_maxRespawns_falsy:
  "QueueManager_addMessage stringify now ts (opts\<lparr>o_maxRespawns := Some 0\<rparr>) s =
     QueueManager_addMessage stringify now ts (opts\<lparr>o_maxRespawns := None\<rparr>) s \<and>
   QueueManager_addMessage stringify now ts (opts\<lparr>o_maxRespawns := Some (- 1)\<rparr>) s =
     QueueManager_addMessage stringify now ts (opts\<lparr>o_maxRespawns := None\<rparr>) s \<and>
   (\<forall>i s'. QueueManager_addMessage stringify now ts (opts\<lparr>o_maxRespawns := Some v\<rparr>) s = Inr (i, s')
      \<longrightarrow> rows s' = rows s @ [last (rows s')] \<and> msg_id (last (rows s')) = i \<and>
          maxRespawns (last (rows s')) = (if v = 0 then - 1 else v)) \<and>
   (or_date (o_startAt opts) (Date now) \<noteq> InvalidDate \<longrightarrow>
      (QueueManager_addMessage stringify now ts (opts\<lparr>o_maxRespawns := Some v\<rparr>) s =
         QueueManager_addMessage stringify now ts (opts\<lparr>o_maxRespawns := None\<rparr>) s
       \<longleftrightarrow> v = 0 \<or> v = - 1))"
proof (intro conjI allI impI)
  show "QueueManager_addMessage stringify now ts (opts\<lparr>o_maxRespawns := Some 0\<rparr>) s =
     QueueManager_addMessage stringify now ts (opts\<lparr>o_maxRespawns := None\<rparr>) s"
    by (simp add: QueueManager_addMessage_def or_number_def)
  show "QueueManager_addMessage stringify now ts (opts\<lparr>o_maxRespawns := Some (- 1)\<rparr>) s =
     QueueManager_addMessage stringify now ts (opts\<lparr>o_maxRespawns := None\<rparr>) s"
    by (simp add: QueueManager_addMessage_def or_number_def)
next
  fix i s'
  assume a: "QueueManager_addMessage stringify now ts (opts\<lparr>o_maxRespawns := Some v\<rparr>) s = Inr (i, s')"
  from QueueManager_addMessage_Inr [OF a]
  show "rows s' = rows s @ [last (rows s')]" and "msg_id (last (rows s')) = i"
    and "maxRespawns (last (rows s')) = (if v = 0 then - 1 else v)"
    by (simp_all add: or_number_def)
next
  assume "or_date (o_startAt opts) (Date now) \<noteq> InvalidDate"
  then obtain t where t: "or_date (o_startAt opts) (Date now) = Date t"
    by (cases "or_date (o_startAt opts) (Date now)") auto
  let ?some = "QueueManager_addMessage stringify now ts (opts\<lparr>o_maxRespawns := Some v\<rparr>) s"
  let ?none = "QueueManager_addMessage stringify now ts (opts\<lparr>o_maxRespawns := None\<rparr>) s"
  from QueueManager_addMessage_valid [of "opts\<lparr>o_maxRespawns := Some v\<rparr>" now t stringify ts s] t
  obtain i s1 where a: "?some = Inr (i, s1)"
    and ra: "maxRespawns (last (rows s1)) = (if v = 0 then - 1 else v)"
    by (auto simp: or_number_def)
  from QueueManager_addMessage_valid [of "opts\<lparr>o_maxRespawns := None\<rparr>" now t stringify ts s] t
  obtain j s2 where b: "?none = Inr (j, s2)" and rb: "maxRespawns (last (rows s2)) = - 1"
    by (auto simp: or_number_def)
  show "?some = ?none \<longleftrightarrow> v = 0 \<or> v = - 1"
  proof
    assume "?some = ?none"
    with a b have "s1 = s2" by simp
    with ra rb show "v = 0 \<or> v = - 1" by (auto split: if_splits)
  next
    assume "v = 0 \<or> v = - 1"
    then show "?some = ?none"
      by (auto simp: QueueManager_addMessage_def or_number_def)
  qed
qed

theorem addMessage_maxRespawns_falsy_witness:
  "QueueManager_addMessage (\<lambda>p. p) 0 0 (interval_options\<lparr>o_maxRespawns := Some 0\<rparr>) empty_store =
     Inr (1, \<lparr>rows = [(demo_row 1 Pending 0)\<lparr>queue := ''test'', payload := ''interval'',
                        interval := Some 1000\<rparr>], last_rowid = 1\<rparr>) \<and>
   or_date (o_startAt interval_options) (Date 0) \<noteq> InvalidDate \<and>
   QueueManager_addMessage (\<lambda>p. p) 0 0 (interval_options\<lparr>o_maxRespawns := Some 2\<rparr>) empty_store \<noteq>
     QueueManager_addMessage (\<lambda>p. p) 0 0 (interval_options\<lparr>o_maxRespawns := None\<rparr>) empty_store"
proof -
  have e: "QueueManager_addMessage (\<lambda>p. p) 0 0 (interval_options\<lparr>o_maxRespawns := Some 0\<rparr>) empty_store =
     Inr (1, \<lparr>rows = [(demo_row 1 Pending 0)\<lparr>queue := ''test'', payload := ''interval'',
                        interval := Some 1000\<rparr>], last_rowid = 1\<rparr>)"
    by code_simp
  have d: "or_date (o_startAt interval_options) (Date 0) \<noteq> InvalidDate"
    by (simp add: interval_options_def or_date_def)
  note t = addMessage_maxRespawns_falsy [where stringify = "\<lambda>p. p" and now = 0 and ts = 0
      and opts = interval_options and s = empty_store and v = 2]
  from t d have n: "QueueManager_addMessage (\<lambda>p. p) 0 0 (interval_options\<lparr>o_maxRespawns := Some 2\<rparr>) empty_store \<noteq>
     QueueManager_addMessage (\<lambda>p. p) 0 0 (interval_options\<lparr>o_maxRespawns := None\<rparr>) empty_store"
    by simp
  from e d n show ?thesis by - (intro conjI, assumption+)
qed

theorem addMessage_maxRespawns_minus_one_counterexample:
  "QueueManager_addMessage (\<lambda>p. p) 0 0 (interval_options\<lparr>o_maxRespawns := Some (- 1)\<rparr>) empty_store =
     QueueManager_addMessage (\<lambda>p. p) 0 0 (interval_options\<lparr>o_maxRespawns := None\<rparr>) empty_store \<and>
   QueueManager_addMessage (\<lambda>p. p) 0 0 (interval_options\<lparr>o_maxRespawns := None\<rparr>) empty_store =
     Inr (1, \<lparr>rows = [(demo_row 1 Pending 0)\<lparr>queue := ''test'', payload := ''interval'',
                        interval := Some 1000\<rparr>], last_rowid = 1\<rparr>)"
  by code_simp

section \<open>The dispatch round trip\<close>

text \<open>
  Claim C5. The request that \<open>processMessage\<close> posts has no \<open>messageId\<close>; the reply the
  parent builds from it therefore carries none, the worker's handler accepts no such
  reply, and \<open>processMessage\<close> is never resolved when the parent is
  \<open>manager_on_message\<close>.
\<close>

theorem dispatch_reply_never_matches:
  "w_messageId (process_request p message) = None \<and>
   map w_messageId (manager_on_message emitQueueEvent (process_request p message)) = [None] \<and>
   filter (handler_accepts message)
     (manager_on_message emitQueueEvent (process_request p message)) = [] \<and>
   fst (processMessage parse (manager_on_message emitQueueEvent) message w) \<noteq> Inr ()"
proof -
  have a: "w_messageId (process_request p message) = None"
    by (simp add: process_request_def)
  have b: "map w_messageId (manager_on_message emitQueueEvent (process_request p message)) = [None]"
    by (simp add: manager_on_message_def process_request_def split: option.split)
  have c: "filter (handler_accepts message)
     (manager_on_message emitQueueEvent (process_request q message)) = []" for q
    by (simp add: manager_on_message_def process_request_def handler_accepts_def
        split: option.split)
  have d: "fst (processMessage parse (manager_on_message emitQueueEvent) message w) \<noteq> Inr ()"
  proof (cases "parse (payload message)")
    case None
    then show ?thesis by (simp add: processMessage_def)
  next
    case (Some q)
    have "find (handler_accepts message)
       (manager_on_message emitQueueEvent (process_request q message)) = None"
      by (rule find_None_filter) (rule c)
    with Some show ?thesis by (simp add: processMessage_def Let_def)
  qed
  from a b c [of p] d show ?thesis by - (intro conjI, assumption+)
qed


section \<open>Recurrence after a successful execution\<close>

lemma processMessage_db:
  "processMessage parse parent message w = (r, w1) \<Longrightarrow> db_calls w1 = db_calls w \<and> db w1 = db w"
  by (auto simp: processMessage_def Let_def split: option.splits if_splits)

lemma call_rescheduleMessage_Date:
  "call_rescheduleMessage ts i (Date t) w =
     (None, w\<lparr>db := update_where_id i
                      (\<lambda>r. r\<lparr>startAt := iso t, status := Pending, updatedAt := ts\<rparr>) (db w),
              db_calls := db_calls w @ [RescheduleMessage i (Date t)]\<rparr>)"
  by (simp add: call_rescheduleMessage_def rescheduleMessage_def toISOString_def)

lemma call_rescheduleMessage_Invalid:
  "call_rescheduleMessage ts i InvalidDate w =
     (Some RangeError, w\<lparr>db_calls := db_calls w @ [RescheduleMessage i InvalidDate]\<rparr>)"
  by (simp add: call_rescheduleMessage_def rescheduleMessage_def toISOString_def)

lemma call_rescheduleMessage_calls:
  "db_calls (snd (call_rescheduleMessage ts i d w)) = db_calls w @ [RescheduleMessage i d]"
  by (cases d) (simp_all add: call_rescheduleMessage_Date call_rescheduleMessage_Invalid)

lemma call_rescheduleMessage_thrown:
  "fst (call_rescheduleMessage ts i d w) = (if d = InvalidDate then Some RangeError else None)"
  by (cases d) (simp_all add: call_rescheduleMessage_Date call_rescheduleMessage_Invalid)

lemma rescheduled_row:
  assumes "r \<in> set (rows (update_where_id i
             (\<lambda>r. r\<lparr>startAt := x, status := Pending, updatedAt := ts\<rparr>) s))"
    and "msg_id r = i"
  shows "startAt r = x \<and> status r = Pending"
proof -
  from assms have "\<exists>y \<in> set (rows s). msg_id y = i \<and>
      r = y\<lparr>startAt := x, status := Pending, updatedAt := ts\<rparr>"
    by (intro updated_row) simp_all
  then show ?thesis by auto
qed

lemma completed_row:
  assumes "r \<in> set (rows (markMessageComplete ts i s))" and "msg_id r = i"
  shows "status r = Completed"
proof -
  from assms have "\<exists>y \<in> set (rows s). msg_id y = i \<and> r = y\<lparr>status := Completed, updatedAt := ts\<rparr>"
    unfolding markMessageComplete_def by (intro updated_row) simp_all
  then show ?thesis by auto
qed



lemma try_block_resolved:
  assumes "processMessage parse parent message w = (Inr (), w1)"
  shows "try_block parse cronNext clk parent message w =
     (case interval_based clk message
             (call_markMessageComplete (complete_ts clk) (msg_id message) w1) of
        (Some e, w3) \<Rightarrow> (Some e, w3)
      | (None, w3) \<Rightarrow> cron_based cronNext clk message w3)"
  by (simp add: try_block_def assms)




lemma next_match_first:
  "next_match matches t n = Some u \<Longrightarrow> t \<le> v \<Longrightarrow> v < u \<Longrightarrow> (v - t) mod 60000 = 0
     \<Longrightarrow> \<not> matches v"
proof (induction n arbitrary: t)
  case 0
  then show ?case by simp
next
  case (Suc n)
  show ?case
  proof (cases "matches t")
    case True
    with Suc.prems show ?thesis by simp
  next
    case False
    with Suc.prems(1) have n: "next_match matches (t + 60000) n = Some u" by simp
    show ?thesis
    proof (cases "v = t")
      case True
      with False show ?thesis by simp
    next
      case neq: False
      from Suc.prems(4) obtain k where k: "v - t = 60000 * k"
        by (auto simp: mod_eq_0_iff_dvd elim: dvdE)
      with neq Suc.prems(2) have "1 \<le> k" by simp
      with k have ge: "t + 60000 \<le> v" by simp
      from k have "v - (t + 60000) = 60000 * (k - 1)" by (simp add: algebra_simps)
      then have m: "(v - (t + 60000)) mod 60000 = 0" by (simp only: mod_mult_self1_is_0)
      show ?thesis by (rule Suc.IH [OF n ge Suc.prems(3) m])
    qed
  qed
qed



lemma call_rescheduleMessage_row:
  assumes "r \<in> set (rows (db (snd (call_rescheduleMessage ts i (Date t) w))))" and "msg_id r = i"
  shows "startAt r = iso t \<and> status r = Pending"
  using assms unfolding call_rescheduleMessage_Date snd_conv
  by (intro rescheduled_row [where ts = ts and s = "db w"]) simp_all

lemma rescheduleMessage_respawnCount:
  assumes "rescheduleMessage ts i d s = Inr s'"
  shows "map respawnCount (rows s') = map respawnCount (rows s)"
proof -
  have k: "map respawnCount (rows (update_where_id i f s)) = map respawnCount (rows s)"
    if "\<And>r. respawnCount (f r) = respawnCount r" for f
    unfolding rows_update_where_id map_map by (rule map_cong [OF refl]) (simp add: that)
  from assms obtain x where
    "s' = update_where_id i (\<lambda>r. r\<lparr>startAt := x, status := Pending, updatedAt := ts\<rparr>) s"
    by (auto simp: rescheduleMessage_def split: sum.splits)
  moreover have "map respawnCount (rows (update_where_id i
      (\<lambda>r. r\<lparr>startAt := x, status := Pending, updatedAt := ts\<rparr>) s)) = map respawnCount (rows s)"
    by (rule k) simp
  ultimately show ?thesis by simp
qed

text \<open>
  Claim C3. The worker reschedules an interval message at \<open>now + interval\<close>, but nothing
  increments \<open>respawnCount\<close>. On the message added with \<open>interval = 1000\<close> and
  \<open>maxRespawns = 2\<close>, four iterations that are each answered successfully dispatch it four
  times, not three; its \<open>respawnCount\<close> is still \<open>0\<close> and it is pending again.
\<close>

theorem interval_respawns_unbounded:
  "(case start Some every_minute 0 four_iterations interval_start of
      Inl e \<Rightarrow> False
    | Inr w \<Rightarrow>
        length (posted w) = 4 \<and>
        map maxRespawns (rows (db w)) = [2] \<and>
        map respawnCount (rows (db w)) = [0] \<and>
        map status (rows (db w)) = [Pending] \<and>
        filter is_reschedule (db_calls w) =
          [RescheduleMessage 1 (Date 1001), RescheduleMessage 1 (Date 2101),
           RescheduleMessage 1 (Date 3201), RescheduleMessage 1 (Date 4301)])"
  by code_simp

text \<open>
  Claim C4, as amended. For a message with both a non-zero interval and a non-empty cron
  pattern that parses, a successful execution calls \<open>markMessageComplete\<close>, then
  \<open>rescheduleMessage\<close> for the interval when \<open>maxRespawns = -1\<close> or
  \<open>respawnCount < maxRespawns\<close>, then, unless that call threw, \<open>rescheduleMessage\<close> for the
  cron pattern. When the respawn test fails there is one reschedule call, the cron one.
  When it holds and \<open>now + interval\<close> is a valid \<open>Date\<close> there are two, the cron one last,
  and in both cases the row is left pending with the text of the cron instant as
  \<open>startAt\<close>. When it holds and \<open>now + interval\<close> is an Invalid Date, the interval call
  throws a RangeError before it writes, the cron call is not made, and the row is left
  completed for the \<open>catch\<close>.
\<close>

theorem try_block_interval_and_cron:
  assumes "interval message = Some iv" and "iv \<noteq> 0"
    and "cronPattern message = Some pat" and "pat \<noteq> []"
    and "processMessage parse parent message w = (Inr (), w1)"
    and "cronNext pat (cron_now clk) = Some t"
  shows "\<exists>w'.
     (let respawn = (maxRespawns message = - 1 \<or> respawnCount message < maxRespawns message);
          nextRunTime = addMilliseconds (interval_now clk) iv;
          thrown = (respawn \<and> nextRunTime = InvalidDate)
      in try_block parse cronNext clk parent message w =
           (if thrown then Some RangeError else None, w') \<and>
         db_calls w' =
           db_calls w @ MarkMessageComplete (msg_id message) #
             (if respawn then [RescheduleMessage (msg_id message) nextRunTime] else []) @
             (if thrown then [] else [RescheduleMessage (msg_id message) (Date t)]) \<and>
         length (filter is_reschedule (drop (length (db_calls w)) (db_calls w'))) =
           (if respawn \<and> \<not> thrown then 2 else 1) \<and>
         (\<forall>r \<in> set (rows (db w')). msg_id r = msg_id message \<longrightarrow>
            (if thrown then status r = Completed
             else startAt r = iso t \<and> status r = Pending)))"
proof -
  let ?id = "msg_id message"
  let ?respawn = "maxRespawns message = - 1 \<or> respawnCount message < maxRespawns message"
  let ?nx = "addMilliseconds (interval_now clk) iv"
  let ?w2 = "call_markMessageComplete (complete_ts clk) ?id w1"
  have c2: "db_calls ?w2 = db_calls w @ [MarkMessageComplete ?id]"
    using processMessage_db [OF assms(5)] by (simp add: call_markMessageComplete_def)
  have d2: "db ?w2 = markMessageComplete (complete_ts clk) ?id (db w1)"
    by (simp add: call_markMessageComplete_def)
  note tb = try_block_resolved [OF assms(5), of cronNext clk]
  have cb: "cron_based cronNext clk message x =
      call_rescheduleMessage (cron_ts clk) ?id (Date t) x" for x :: "'a worker_state"
    by (simp add: cron_based_def assms)
  have last_call: ?thesis
    if t: "try_block parse cronNext clk parent message w =
        call_rescheduleMessage (cron_ts clk) ?id (Date t) x"
      and cx: "db_calls x = db_calls w @ MarkMessageComplete ?id #
        (if ?respawn then [RescheduleMessage ?id ?nx] else [])"
      and nx: "\<not> (?respawn \<and> ?nx = InvalidDate)"
    for x
  proof -
    let ?r = "call_rescheduleMessage (cron_ts clk) ?id (Date t) x"
    have a: "try_block parse cronNext clk parent message w = (None, snd ?r)"
      unfolding t by (rule prod_eqI) (simp_all add: call_rescheduleMessage_thrown)
    have b: "db_calls (snd ?r) = db_calls w @ MarkMessageComplete ?id #
        (if ?respawn then [RescheduleMessage ?id ?nx] else []) @ [RescheduleMessage ?id (Date t)]"
      by (simp add: call_rescheduleMessage_calls cx)
    have n: "length (filter is_reschedule (drop (length (db_calls w)) (db_calls (snd ?r)))) =
        (if ?respawn \<and> \<not> False then 2 else 1)"
      unfolding b by (simp add: is_reschedule_def)
    have r: "\<forall>r \<in> set (rows (db (snd ?r))). msg_id r = ?id \<longrightarrow>
        startAt r = iso t \<and> status r = Pending"
      using call_rescheduleMessage_row by blast
    from nx have thr: "(?respawn \<and> ?nx = InvalidDate) = False" by simp
    show ?thesis
      unfolding Let_def thr if_False by (intro exI [of _ "snd ?r"] conjI a b n r)
  qed
  show ?thesis
  proof (cases ?respawn)
    case False
    then have ib: "interval_based clk message ?w2 = (None, ?w2)"
      by (simp add: interval_based_def assms)
    show ?thesis
    proof (rule last_call)
      show "try_block parse cronNext clk parent message w =
          call_rescheduleMessage (cron_ts clk) ?id (Date t) ?w2"
        by (simp add: tb ib cb)
      show "db_calls ?w2 = db_calls w @ MarkMessageComplete ?id #
          (if ?respawn then [RescheduleMessage ?id ?nx] else [])"
        using False by (simp add: c2)
      show "\<not> (?respawn \<and> ?nx = InvalidDate)" using False by simp
    qed
  next
    case True
    then have ib: "interval_based clk message ?w2 =
        call_rescheduleMessage (interval_ts clk) ?id ?nx ?w2"
      by (simp add: interval_based_def assms)
    show ?thesis
    proof (cases ?nx)
      case (Date u)
      let ?w3 = "snd (call_rescheduleMessage (interval_ts clk) ?id ?nx ?w2)"
      have i3: "interval_based clk message ?w2 = (None, ?w3)"
        unfolding ib by (rule prod_eqI) (simp_all add: call_rescheduleMessage_thrown Date)
      show ?thesis
      proof (rule last_call)
        show "try_block parse cronNext clk parent message w =
            call_rescheduleMessage (cron_ts clk) ?id (Date t) ?w3"
          by (simp add: tb i3 cb)
        show "db_calls ?w3 = db_calls w @ MarkMessageComplete ?id #
            (if ?respawn then [RescheduleMessage ?id ?nx] else [])"
          using True by (simp add: call_rescheduleMessage_calls c2)
        show "\<not> (?respawn \<and> ?nx = InvalidDate)" using Date by simp
      qed
    next
      case InvalidDate
      let ?w3 = "?w2\<lparr>db_calls := db_calls ?w2 @ [RescheduleMessage ?id InvalidDate]\<rparr>"
      have i3: "interval_based clk message ?w2 = (Some RangeError, ?w3)"
        unfolding ib InvalidDate by (rule call_rescheduleMessage_Invalid)
      have a: "try_block parse cronNext clk parent message w = (Some RangeError, ?w3)"
        by (simp add: tb i3)
      have b: "db_calls ?w3 = db_calls w @ MarkMessageComplete ?id #
          (if ?respawn then [RescheduleMessage ?id ?nx] else []) @ []"
        using True by (simp add: c2 InvalidDate)
      have n: "length (filter is_reschedule (drop (length (db_calls w)) (db_calls ?w3))) =
          (if ?respawn \<and> \<not> True then 2 else 1)"
        unfolding b using True by (simp add: is_reschedule_def)
      have r: "\<forall>r \<in> set (rows (db ?w3)). msg_id r = ?id \<longrightarrow> status r = Completed"
        using completed_row by (simp add: d2)
      from True InvalidDate have thr: "(?respawn \<and> ?nx = InvalidDate) = True" by simp
      show ?thesis
        unfolding Let_def thr if_True by (intro exI [of _ ?w3] conjI a b n r)
    qed
  qed
qed

theorem try_block_interval_and_cron_witness:
  "interval both_message = Some 1000 \<and> (1000 :: rat) \<noteq> 0 \<and>
   cronPattern both_message = Some ''* * * * *'' \<and> ''* * * * *'' \<noteq> [] \<and>
   fst (processMessage Some (answering_parent 1) both_message (claimed_worker both_message)) = Inr () \<and>
   every_minute ''* * * * *'' (cron_now (tick 0)) = Some 60000 \<and>
   db_calls (snd (try_block Some every_minute (tick 0) (answering_parent 1) both_message
       (claimed_worker both_message))) =
     [GetNextMessage 0, MarkMessageComplete 1, RescheduleMessage 1 (Date 1001),
      RescheduleMessage 1 (Date 60000)] \<and>
   map startAt (rows (db (snd (try_block Some every_minute (tick 0) (answering_parent 1) both_message
       (claimed_worker both_message))))) = [''1970-01-01T00:01:00.000Z'']"
proof -
  let ?w = "claimed_worker both_message"
  let ?p = "processMessage Some (answering_parent 1) both_message ?w"
  have h1: "interval both_message = Some 1000" and h2: "(1000 :: rat) \<noteq> 0"
    and h3: "cronPattern both_message = Some ''* * * * *''" and h4: "''* * * * *'' \<noteq> []"
    by (simp_all add: both_message_def demo_row_def)
  have f: "fst ?p = Inr ()" by code_simp
  have h5: "?p = (Inr (), snd ?p)" by (rule prod_eqI) (simp_all only: f fst_conv snd_conv)
  have h6: "every_minute ''* * * * *'' (cron_now (tick 0)) = Some 60000" by code_simp
  have e: "db_calls (snd (try_block Some every_minute (tick 0) (answering_parent 1) both_message ?w)) =
     [GetNextMessage 0, MarkMessageComplete 1, RescheduleMessage 1 (Date 1001),
      RescheduleMessage 1 (Date 60000)]"
    "map startAt (rows (db (snd (try_block Some every_minute (tick 0) (answering_parent 1)
        both_message ?w)))) = [''1970-01-01T00:01:00.000Z'']"
    by code_simp+
  note t = try_block_interval_and_cron [where cronNext = every_minute and clk = "tick 0",
      OF h1 h2 h3 h4 h5 h6]
  from t h1 h2 h3 h4 f h6 e show ?thesis by - (intro conjI, assumption+)
qed

theorem two_reschedule_calls_counterexample:
  "(case start_iteration Some every_minute 0 (tick 0) (answering_parent 1)
          (pending_worker both_message) of
      Inl e \<Rightarrow> False
    | Inr w \<Rightarrow>
        db_calls w =
          [GetNextMessage 0, MarkMessageComplete 1, RescheduleMessage 1 (Date 1001),
           RescheduleMessage 1 (Date 60000)] \<and>
        length (filter is_reschedule (db_calls w)) = 2 \<and>
        length (posted w) = 1)"
  by code_simp

text \<open>
  The same message with an interval of 9e15 milliseconds: the interval reschedule
  throws, the cron reschedule is not made, and the \<open>catch\<close> marks the message failed.
\<close>

lemma huge_interval_iteration:
  "(case start_iteration Some every_minute 0 (tick 0) (answering_parent 1)
          (pending_worker huge_message) of
      Inl e \<Rightarrow> False
    | Inr w \<Rightarrow>
        db_calls w =
          [GetNextMessage 0, MarkMessageComplete 1, RescheduleMessage 1 InvalidDate,
           MarkMessageFailed 1] \<and>
        map status (rows (db w)) = [Failed] \<and>
        map startAt (rows (db w)) = [''1970-01-01T00:00:00.000Z''])"
  by code_simp




end
